theory Spec2Isabelle
  imports Main
begin

section \<open>Strings and ordered dictionaries\<close>

text \<open>
  Strings are byte lists, a Python string standing for its UTF-8 encoding, in which the
  byte of the dot stands for the dot and for nothing else. Python's \<open>str.lower()\<close>
  lowercases every cased character of Unicode and is not defined here: it is a parameter
  \<open>lower\<close> of every operation that calls it (\<open>get_model\<close>, \<open>get_registered_model\<close>) or
  that reads a \<open>model_name\<close>, and nothing is assumed of it. Two strings are equal up to
  letter case when \<open>lower\<close> maps them to the same string. \<open>ascii_lower\<close> is
  \<open>str.lower()\<close> on the strings that have ASCII characters only; the examples use it.
\<close>

definition lower_char :: "char \<Rightarrow> char" where
  "lower_char c =
     (let n = (of_char c :: nat) in if 65 \<le> n \<and> n \<le> 90 then char_of (n + 32) else c)"

definition ascii_lower :: "string \<Rightarrow> string" where
  "ascii_lower s = map lower_char s"

text \<open>
  \<open>s.rpartition(sep)[2]\<close>: what follows the last separator, the whole string when
  there is none.
\<close>

definition rpartition_tail :: "char \<Rightarrow> string \<Rightarrow> string" where
  "rpartition_tail sep s = rev (takeWhile (\<lambda>c. c \<noteq> sep) (rev s))"

text \<open>\<open>s.split(sep)\<close> for a one-character separator.\<close>

fun split_on :: "char \<Rightarrow> string \<Rightarrow> string list" where
  "split_on sep [] = [[]]"
| "split_on sep (x # xs) =
     (if x = sep then [] # split_on sep xs
      else (case split_on sep xs of
              [] \<Rightarrow> [[x]]
            | w # ws \<Rightarrow> (x # w) # ws))"

text \<open>
  An \<open>OrderedDict\<close> is an association list in insertion order. \<open>d[k] = v\<close> replaces
  the value in place when the key is there and appends the pair otherwise; lookup is
  \<open>map_of\<close>.
\<close>

fun od_set :: "'k \<Rightarrow> 'v \<Rightarrow> ('k \<times> 'v) list \<Rightarrow> ('k \<times> 'v) list" where
  "od_set k v [] = [(k, v)]"
| "od_set k v (p # ps) = (if fst p = k then (k, v) # ps else p # od_set k v ps)"

section \<open>Data model\<close>

text \<open>
  A model class, as far as the registry reads it. \<open>object_name\<close> is the name the class
  was declared with, \<open>app_label\<close> the application it belongs to
  (\<open>model._meta.app_label\<close>); the three flags are the ones \<open>get_models\<close> filters on.
\<close>

record model =
  object_name :: string
  app_label :: string
  auto_created :: bool
  deferred :: bool
  swapped :: bool

text \<open>
  Modelled from the spec: \<open>model._meta.model_name\<close> is set outside this file; the
  RecordStore is keyed by the record name lowercased, so it is the lowercased
  \<open>object_name\<close>.
\<close>

definition model_name :: "(string \<Rightarrow> string) \<Rightarrow> model \<Rightarrow> string" where
  "model_name lower m = lower (object_name m)"

text \<open>
  Every exception the registry raises or lets through, under the name the
  specification gives it:
  \<^item> \<open>NotReadyFault\<close>: \<open>RuntimeError("App registry isn't populated yet.")\<close>;
  \<^item> \<open>ReentrancyFault\<close>: \<open>RuntimeError("populate() isn't reentrant")\<close>;
  \<^item> \<open>ConflictFault n l old new\<close>: \<open>RuntimeError("Conflicting 'n' models in
    application 'l': old and new.")\<close>;
  \<^item> \<open>NotFoundFault l n\<close>: \<open>LookupError\<close> for an application label, or for a model of it;
  \<^item> \<open>InvalidSubsetFault extra\<close>: \<open>ValueError("Available apps isn't a subset of
    installed apps, extra apps: ...")\<close>;
  \<^item> \<open>UnbalancedStackFault\<close>: the \<open>IndexError\<close> of \<open>list.pop()\<close> on the empty list;
  \<^item> \<open>ModuleNameFault\<close>: the \<open>IndexError\<close> of \<open>split('.')[-2]\<close> on a name without a dot;
  \<^item> \<open>CollaboratorFault msg\<close>: whatever \<open>AppConfig.create\<close>, \<open>import_models\<close> or
    \<open>setup\<close> raises.
\<close>

datatype fault =
    NotReadyFault
  | ReentrancyFault
  | ConflictFault string string model model
  | NotFoundFault string "string option"
  | InvalidSubsetFault "string set"
  | UnbalancedStackFault
  | ModuleNameFault
  | CollaboratorFault string

text \<open>
  A call of \<open>get_models\<close> as it is written. Each of the four parameters is left out,
  passed by position or passed by keyword (Python passes by position a prefix of the
  parameters; the keyword arguments are taken in the order of the parameters). \<open>app_mod\<close>
  is \<open>None\<close> or a module, given by its name; a flag is a \<open>bool\<close>.
\<close>

datatype 'a passed = Omitted | Positional 'a | Keyword 'a

record get_models_call =
  arg_app_mod :: "string option passed"
  arg_include_auto_created :: "bool passed"
  arg_include_deferred :: "bool passed"
  arg_include_swapped :: "bool passed"

text \<open>
  The lookups of records that the registry offers: \<open>get_models\<close>, \<open>get_model\<close> and
  \<open>get_registered_model\<close>, with their arguments.
\<close>

datatype lookup =
    GetModels get_models_call
  | GetModel string string
  | GetRegisteredModel string string

text \<open>
  Modelled from the spec: \<open>AppConfig\<close> (\<open>django/apps/base.py\<close>) is not part of this
  file. A descriptor has a \<open>label\<close>, a qualified \<open>name\<close>, a load operation and a setup
  hook. \<open>import_models\<close> is the outcome of loading: a fault, or the sequence of records
  the import constructs, each of which registers itself through \<open>register_model\<close> under
  its own \<open>app_label\<close>. The setup hook runs when every component is loaded, so that it
  may look up the records of any of them: \<open>setup_lookups\<close> are the lookups that
  \<open>setup()\<close> makes on the registry, in order, and \<open>setup_hook\<close> is how it ends after
  them: with a fault, or by returning.
\<close>

record app_config =
  label :: string
  name :: string
  import_models :: "fault + model list"
  setup_lookups :: "lookup list"
  setup_hook :: "fault option"

text \<open>
  An entry of \<open>installed_apps\<close>: an \<open>AppConfig\<close> instance, or a name that
  \<open>AppConfig.create\<close> resolves. \<open>AppConfig.create\<close> is a parameter \<open>create\<close> of every
  operation that calls it.
\<close>

datatype entry = Name string | Config app_config

type_synonym app_configs_dict = "(string \<times> app_config) list"

text \<open>
  The values that a call of \<open>get_models\<close> binds to its four parameters: \<open>app_mod\<close>,
  \<open>include_auto_created\<close>, \<open>include_deferred\<close> and \<open>include_swapped\<close>.
\<close>

type_synonym get_models_args = "string option \<times> bool \<times> bool \<times> bool"

text \<open>
  The registry. \<open>all_models\<close> is a \<open>defaultdict(OrderedDict)\<close>; \<open>stored_app_configs\<close>
  is a Python list used as a stack whose top is the last element. The field
  \<open>_pending_lookups\<close> is left out: no method of this class reads or writes it.

  \<open>lru_cache\<close> keeps one table for the function \<open>get_models\<close>, whatever the registry
  it is called on. A key of the table is made of \<open>self\<close>, the positional arguments and
  the keyword items of the call, as they were passed and before any default is filled
  in: two calls on one registry have the same key when they are written alike, not when
  they bind the same values. \<open>cache\<close> is the part of the table whose keys have this
  registry as \<open>self\<close>, so a key is a \<open>get_models_call\<close>. \<open>cache_clear()\<close> empties the
  whole table: when any other registry clears the cache, this registry undergoes
  \<open>clear_cache\<close> too.
\<close>

record apps =
  all_models :: "string \<rightharpoonup> (string \<times> model) list"
  app_configs :: app_configs_dict
  stored_app_configs :: "app_configs_dict list"
  ready :: bool
  cache :: "get_models_call \<rightharpoonup> model list"

text \<open>\<open>Apps(installed_apps=None)\<close>: the master registry before it is populated.\<close>

definition init_apps :: apps where
  "init_apps =
     \<lparr>all_models = Map.empty, app_configs = [], stored_app_configs = [],
      ready = False, cache = Map.empty\<rparr>"

section \<open>Operations\<close>

text \<open>
  An operation that mutates the registry returns the exception it raised (\<open>None\<close> when
  it returned) and the registry as it left it: an exception does not undo the writes made
  before it.
\<close>

definition clear_cache :: "apps \<Rightarrow> apps" where
  "clear_cache st = st\<lparr>cache := Map.empty\<rparr>"

definition check_ready :: "apps \<Rightarrow> fault option" where
  "check_ready st = (if \<not> ready st then Some NotReadyFault else None)"

definition get_app_configs :: "apps \<Rightarrow> fault + app_config list" where
  "get_app_configs st =
     (case check_ready st of
        Some e \<Rightarrow> Inl e
      | None \<Rightarrow> Inr (map snd (app_configs st)))"

definition get_app_config :: "apps \<Rightarrow> string \<Rightarrow> fault + app_config" where
  "get_app_config st lbl =
     (case check_ready st of
        Some e \<Rightarrow> Inl e
      | None \<Rightarrow>
          (case map_of (app_configs st) lbl of
             None \<Rightarrow> Inl (NotFoundFault lbl None)
           | Some c \<Rightarrow> Inr c))"

text \<open>
  \<open>self.all_models[lbl]\<close> on the \<open>defaultdict\<close>: a missing label gets an empty
  \<open>OrderedDict\<close>, stored in the registry, before the lookup returns it.
\<close>

definition all_models_getitem :: "apps \<Rightarrow> string \<Rightarrow> (string \<times> model) list \<times> apps" where
  "all_models_getitem st lbl =
     (case all_models st lbl of
        Some d \<Rightarrow> (d, st)
      | None \<Rightarrow> ([], st\<lparr>all_models := (all_models st)(lbl \<mapsto> [])\<rparr>))"

definition register_model ::
  "(string \<Rightarrow> string) \<Rightarrow> apps \<Rightarrow> string \<Rightarrow> model \<Rightarrow> fault option \<times> apps" where
  "register_model lower st lbl m =
     (let (app_models, st1) = all_models_getitem st lbl in
      case map_of app_models (model_name lower m) of
        Some old \<Rightarrow> (Some (ConflictFault (model_name lower m) lbl old m), st1)
      | None \<Rightarrow>
          (None, clear_cache
             (st1\<lparr>all_models :=
                    (all_models st1)(lbl \<mapsto> od_set (model_name lower m) m app_models)\<rparr>)))"

definition has_app :: "apps \<Rightarrow> string \<Rightarrow> bool" where
  "has_app st app_name =
     (case map_of (app_configs st) (rpartition_tail CHR ''.'' app_name) of
        None \<Rightarrow> False
      | Some c \<Rightarrow> name c = app_name)"

definition get_registered_model ::
  "(string \<Rightarrow> string) \<Rightarrow> apps \<Rightarrow> string \<Rightarrow> string \<Rightarrow> (fault + model) \<times> apps" where
  "get_registered_model lower st lbl nm =
     (let (app_models, st1) = all_models_getitem st lbl in
      case map_of app_models (lower nm) of
        None \<Rightarrow> (Inl (NotFoundFault lbl (Some nm)), st1)
      | Some m \<Rightarrow> (Inr m, st1))"

text \<open>
  Modelled from the spec: \<open>AppConfig.get_models\<close> and \<open>AppConfig.get_model\<close> are not
  part of this file. A component's records are the sub-map of the RecordStore under its
  label; \<open>get_models\<close> yields them in their order, leaving out the auto-created, deferred
  and swapped ones unless the matching flag is set; \<open>get_model\<close> looks up the key it is
  given, as it is given, and fails with \<open>NotFoundFault\<close> when the sub-map does not have
  it. The descriptor does no lowercasing of its own: the specification gives the lookup
  that ignores letter case to the registry.
\<close>

definition app_config_models :: "apps \<Rightarrow> app_config \<Rightarrow> (string \<times> model) list" where
  "app_config_models st c = (case all_models st (label c) of None \<Rightarrow> [] | Some d \<Rightarrow> d)"

definition app_config_get_models ::
  "apps \<Rightarrow> app_config \<Rightarrow> bool \<Rightarrow> bool \<Rightarrow> bool \<Rightarrow> model list" where
  "app_config_get_models st c include_auto_created include_deferred include_swapped =
     filter (\<lambda>m. (include_deferred \<or> \<not> deferred m)
               \<and> (include_auto_created \<or> \<not> auto_created m)
               \<and> (include_swapped \<or> \<not> swapped m))
       (map snd (app_config_models st c))"


text \<open>
  The body of \<open>get_models\<close>, under the cache, on the values bound to its parameters. With
  \<open>app_mod\<close> the label is the last but one component of the module's name, and a
  \<open>LookupError\<close> gives the empty list. The deprecation warning is left out: it changes
  neither the result nor the registry.
\<close>

definition get_models_body :: "apps \<Rightarrow> get_models_args \<Rightarrow> fault + model list" where
  "get_models_body st args =
     (case args of (app_mod, include_auto_created, include_deferred, include_swapped) \<Rightarrow>
        (case check_ready st of
           Some e \<Rightarrow> Inl e
         | None \<Rightarrow>
             (case app_mod of
                Some mod_name \<Rightarrow>
                  (let parts = split_on CHR ''.'' mod_name in
                   if length parts < 2 then Inl ModuleNameFault
                   else
                     (case get_app_config st (parts ! (length parts - 2)) of
                        Inl (NotFoundFault l n) \<Rightarrow> Inr []
                      | Inl e \<Rightarrow> Inl e
                      | Inr c \<Rightarrow>
                          Inr (app_config_get_models st c
                                 include_auto_created include_deferred include_swapped)))
              | None \<Rightarrow>
                  Inr (concat (map (\<lambda>c. app_config_get_models st c
                                 include_auto_created include_deferred include_swapped)
                          (map snd (app_configs st)))))))"

text \<open>
  Binding the arguments of a call: a parameter that is left out takes its default,
  \<open>None\<close> for \<open>app_mod\<close> and \<open>False\<close> for each flag.
\<close>

definition passed_value :: "'a \<Rightarrow> 'a passed \<Rightarrow> 'a" where
  "passed_value dflt p = (case p of Omitted \<Rightarrow> dflt | Positional v \<Rightarrow> v | Keyword v \<Rightarrow> v)"

definition bind_arguments :: "get_models_call \<Rightarrow> get_models_args" where
  "bind_arguments call =
     (passed_value None (arg_app_mod call),
      passed_value False (arg_include_auto_created call),
      passed_value False (arg_include_deferred call),
      passed_value False (arg_include_swapped call))"

text \<open>
  \<open>lru_cache(maxsize=None)\<close>: the table is looked up with the call as it is written. A
  hit returns the stored result without running the body; a miss binds the arguments,
  runs the body and stores what it returns; an exception stores nothing.
\<close>

definition get_models :: "apps \<Rightarrow> get_models_call \<Rightarrow> (fault + model list) \<times> apps" where
  "get_models st call =
     (case cache st call of
        Some r \<Rightarrow> (Inr r, st)
      | None \<Rightarrow>
          (case get_models_body st (bind_arguments call) of
             Inl e \<Rightarrow> (Inl e, st)
           | Inr r \<Rightarrow> (Inr r, st\<lparr>cache := (cache st)(call \<mapsto> r)\<rparr>)))"


subsection \<open>populate\<close>

text \<open>The first loop of \<open>populate\<close>: resolve each entry and store it under its label.\<close>

definition resolve :: "(string \<Rightarrow> fault + app_config) \<Rightarrow> entry \<Rightarrow> fault + app_config" where
  "resolve create e = (case e of Config c \<Rightarrow> Inr c | Name n \<Rightarrow> create n)"

fun load_app_configs ::
  "(string \<Rightarrow> fault + app_config) \<Rightarrow> apps \<Rightarrow> entry list \<Rightarrow> fault option \<times> apps" where
  "load_app_configs create st [] = (None, st)"
| "load_app_configs create st (e # es) =
     (case resolve create e of
        Inl err \<Rightarrow> (Some err, st)
      | Inr c \<Rightarrow>
          load_app_configs create
            (st\<lparr>app_configs := od_set (label c) c (app_configs st)\<rparr>) es)"

text \<open>
  The records an import constructs register themselves one after the other; the first
  conflict ends the import.
\<close>

fun register_all ::
  "(string \<Rightarrow> string) \<Rightarrow> apps \<Rightarrow> model list \<Rightarrow> fault option \<times> apps" where
  "register_all lower st [] = (None, st)"
| "register_all lower st (m # ms) =
     (case register_model lower st (app_label m) m of
        (Some err, st1) \<Rightarrow> (Some err, st1)
      | (None, st1) \<Rightarrow> register_all lower st1 ms)"

text \<open>
  The second loop: \<open>self.all_models[app_config.label]\<close> creates the sub-map of the
  label, then the component is loaded.
\<close>

fun load_models ::
  "(string \<Rightarrow> string) \<Rightarrow> apps \<Rightarrow> app_config list \<Rightarrow> fault option \<times> apps" where
  "load_models lower st [] = (None, st)"
| "load_models lower st (c # cs) =
     (let (d, st1) = all_models_getitem st (label c) in
      case import_models c of
        Inl err \<Rightarrow> (Some err, st1)
      | Inr ms \<Rightarrow>
          (case register_all lower st1 ms of
             (Some err, st2) \<Rightarrow> (Some err, st2)
           | (None, st2) \<Rightarrow> load_models lower st2 cs))"

text \<open>
  The third loop runs the setup hooks, on the registry that is already marked ready and
  whose cache has just been cleared. A lookup that a hook makes leaves in the registry
  what the lookup itself writes: \<open>get_models\<close> the result it stores in the cache,
  \<open>get_registered_model\<close> the sub-map that the \<open>defaultdict\<close> creates; \<open>get_model\<close>
  writes nothing.
\<close>

fun run_lookup :: "(string \<Rightarrow> string) \<Rightarrow> apps \<Rightarrow> lookup \<Rightarrow> apps" where
  "run_lookup lower st (GetModels call) = snd (get_models st call)"
| "run_lookup lower st (GetModel lbl nm) = st"
| "run_lookup lower st (GetRegisteredModel lbl nm) = snd (get_registered_model lower st lbl nm)"

fun setup_all ::
  "(string \<Rightarrow> string) \<Rightarrow> apps \<Rightarrow> app_config list \<Rightarrow> fault option \<times> apps" where
  "setup_all lower st [] = (None, st)"
| "setup_all lower st (c # cs) =
     (let st1 = foldl (run_lookup lower) st (setup_lookups c) in
      case setup_hook c of
        Some err \<Rightarrow> (Some err, st1)
      | None \<Rightarrow> setup_all lower st1 cs)"

definition populate ::
  "(string \<Rightarrow> string) \<Rightarrow> (string \<Rightarrow> fault + app_config) \<Rightarrow> apps \<Rightarrow> entry list \<Rightarrow>
   fault option \<times> apps" where
  "populate lower create st installed_apps =
     (if ready st then (None, st)
      else if app_configs st \<noteq> [] then (Some ReentrancyFault, st)
      else
        (case load_app_configs create st installed_apps of
           (Some err, st1) \<Rightarrow> (Some err, st1)
         | (None, st1) \<Rightarrow>
             (case load_models lower st1 (map snd (app_configs st1)) of
                (Some err, st2) \<Rightarrow> (Some err, st2)
              | (None, st2) \<Rightarrow>
                  (let st3 = (clear_cache st2)\<lparr>ready := True\<rparr> in
                   case get_app_configs st3 of
                     Inl err \<Rightarrow> (Some err, st3)
                   | Inr cs \<Rightarrow> setup_all lower st3 cs))))"

subsection \<open>Overrides\<close>

definition set_available_apps :: "apps \<Rightarrow> string list \<Rightarrow> fault option \<times> apps" where
  "set_available_apps st available =
     (case get_app_configs st of
        Inl err \<Rightarrow> (Some err, st)
      | Inr cs \<Rightarrow>
          (let installed = set (map name cs) in
           if \<not> set available \<subseteq> installed
           then (Some (InvalidSubsetFault (set available - installed)), st)
           else
             (None, clear_cache
                (st\<lparr>stored_app_configs := stored_app_configs st @ [app_configs st],
                    app_configs := filter (\<lambda>(l, c). name c \<in> set available) (app_configs st)\<rparr>))))"

definition unset_available_apps :: "apps \<Rightarrow> fault option \<times> apps" where
  "unset_available_apps st =
     (if stored_app_configs st = [] then (Some UnbalancedStackFault, st)
      else
        (None, clear_cache
           (st\<lparr>app_configs := last (stored_app_configs st),
               stored_app_configs := butlast (stored_app_configs st)\<rparr>)))"

definition set_installed_apps ::
  "(string \<Rightarrow> string) \<Rightarrow> (string \<Rightarrow> fault + app_config) \<Rightarrow> apps \<Rightarrow> entry list \<Rightarrow>
   fault option \<times> apps" where
  "set_installed_apps lower create st installed =
     (case check_ready st of
        Some err \<Rightarrow> (Some err, st)
      | None \<Rightarrow>
          populate lower create
            (clear_cache
               (st\<lparr>stored_app_configs := stored_app_configs st @ [app_configs st],
                   app_configs := [],
                   ready := False\<rparr>))
            installed)"

definition unset_installed_apps :: "apps \<Rightarrow> fault option \<times> apps" where
  "unset_installed_apps st =
     (if stored_app_configs st = [] then (Some UnbalancedStackFault, st)
      else
        (None, clear_cache
           (st\<lparr>app_configs := last (stored_app_configs st),
               stored_app_configs := butlast (stored_app_configs st),
               ready := True\<rparr>)))"

section \<open>Sequences of calls, an invariant, and example values\<close>

text \<open>
  A sequence of \<open>set_available_apps\<close> and \<open>unset_available_apps\<close> calls, run until the
  first one that raises.
\<close>

datatype override_call = PushSubset "string list" | Pop

fun is_pop :: "override_call \<Rightarrow> bool" where
  "is_pop Pop = True"
| "is_pop (PushSubset av) = False"

fun run_overrides :: "apps \<Rightarrow> override_call list \<Rightarrow> fault option \<times> apps" where
  "run_overrides st [] = (None, st)"
| "run_overrides st (PushSubset av # cs) =
     (case set_available_apps st av of
        (Some err, st1) \<Rightarrow> (Some err, st1)
      | (None, st1) \<Rightarrow> run_overrides st1 cs)"
| "run_overrides st (Pop # cs) =
     (case unset_available_apps st of
        (Some err, st1) \<Rightarrow> (Some err, st1)
      | (None, st1) \<Rightarrow> run_overrides st1 cs)"

text \<open>
  Every record of the RecordStore sits under its own \<open>app_label\<close> and its own
  \<open>model_name\<close>. It holds of the empty registry and is kept by every registration a
  record makes for itself.
\<close>

definition store_keyed :: "(string \<Rightarrow> string) \<Rightarrow> apps \<Rightarrow> bool" where
  "store_keyed lower st =
     (\<forall>l d k m. all_models st l = Some d \<longrightarrow> (k, m) \<in> set d \<longrightarrow>
        app_label m = l \<and> k = model_name lower m)"





text \<open>The labels of the active components.\<close>

definition active_labels :: "apps \<Rightarrow> string set" where
  "active_labels st = label ` snd ` set (app_configs st)"

text \<open>
  Example values: two components \<open>A\<close> and \<open>B\<close>, where loading \<open>B\<close> yields the record
  \<open>Widget\<close>; a \<open>B\<close> whose load raises; a \<open>B\<close> whose setup hook calls \<open>get_models()\<close>; a
  second component with label \<open>A\<close>; a component whose label is not the last part of its
  name; a component \<open>C\<close> with a record of its own. The calls \<open>get_models()\<close> and
  \<open>get_models(include_auto_created=False)\<close>.
\<close>

definition no_arguments :: get_models_call where
  "no_arguments =
     \<lparr>arg_app_mod = Omitted, arg_include_auto_created = Omitted,
      arg_include_deferred = Omitted, arg_include_swapped = Omitted\<rparr>"

definition default_by_keyword :: get_models_call where
  "default_by_keyword =
     \<lparr>arg_app_mod = Omitted, arg_include_auto_created = Keyword False,
      arg_include_deferred = Omitted, arg_include_swapped = Omitted\<rparr>"

definition widget :: model where
  "widget = \<lparr>object_name = ''Widget'', app_label = ''B'', auto_created = False,
              deferred = False, swapped = False\<rparr>"

definition widget_lowercase :: model where
  "widget_lowercase = \<lparr>object_name = ''widget'', app_label = ''B'', auto_created = True,
              deferred = False, swapped = False\<rparr>"

definition gizmo :: model where
  "gizmo = \<lparr>object_name = ''Gizmo'', app_label = ''C'', auto_created = False,
             deferred = False, swapped = False\<rparr>"

definition app_A :: app_config where
  "app_A = \<lparr>label = ''A'', name = ''pkg.A'', import_models = Inr [], setup_lookups = [],
      setup_hook = None\<rparr>"

definition app_B :: app_config where
  "app_B = \<lparr>label = ''B'', name = ''pkg.B'', import_models = Inr [widget], setup_lookups = [],
      setup_hook = None\<rparr>"

definition app_B_broken :: app_config where
  "app_B_broken =
     \<lparr>label = ''B'', name = ''pkg.B'',
      import_models = Inl (CollaboratorFault ''import failed''), setup_lookups = [],
      setup_hook = None\<rparr>"

definition app_B_setup :: app_config where
  "app_B_setup =
     \<lparr>label = ''B'', name = ''pkg.B'', import_models = Inr [widget],
      setup_lookups = [GetModels no_arguments], setup_hook = None\<rparr>"

definition app_A_other :: app_config where
  "app_A_other =
     \<lparr>label = ''A'', name = ''other.A'', import_models = Inr [], setup_lookups = [],
      setup_hook = None\<rparr>"

definition app_custom_label :: app_config where
  "app_custom_label =
     \<lparr>label = ''foo'', name = ''pkg.bar'', import_models = Inr [], setup_lookups = [],
      setup_hook = None\<rparr>"

definition app_C :: app_config where
  "app_C = \<lparr>label = ''C'', name = ''pkg.C'', import_models = Inr [gizmo], setup_lookups = [],
      setup_hook = None\<rparr>"

definition example_create :: "string \<Rightarrow> fault + app_config" where
  "example_create n =
     (if n = ''pkg.A'' then Inr app_A
      else if n = ''pkg.B'' then Inr app_B
      else if n = ''pkg.C'' then Inr app_C
      else Inl (CollaboratorFault n))"

text \<open>The registry after \<open>populate\<close> of \<open>pkg.A\<close> and \<open>pkg.B\<close> on the empty one.\<close>

definition populated_AB :: apps where
  "populated_AB =
     \<lparr>all_models = [''A'' \<mapsto> [], ''B'' \<mapsto> [(''widget'', widget)]],
      app_configs = [(''A'', app_A), (''B'', app_B)],
      stored_app_configs = [], ready = True, cache = Map.empty\<rparr>"



definition replaced_C :: apps where
  "replaced_C =
     \<lparr>all_models = [''A'' \<mapsto> [], ''B'' \<mapsto> [(''widget'', widget)],
                     ''C'' \<mapsto> [(''gizmo'', gizmo)]],
      app_configs = [(''C'', app_C)],
      stored_app_configs = [[(''A'', app_A), (''B'', app_B)]],
      ready = True, cache = Map.empty\<rparr>"

definition restored_AB :: apps where
  "restored_AB =
     \<lparr>all_models = [''A'' \<mapsto> [], ''B'' \<mapsto> [(''widget'', widget)],
                     ''C'' \<mapsto> [(''gizmo'', gizmo)]],
      app_configs = [(''A'', app_A), (''B'', app_B)],
      stored_app_configs = [],
      ready = True, cache = Map.empty\<rparr>"

definition half_loaded :: apps where
  "half_loaded =
     \<lparr>all_models = [''A'' \<mapsto> [], ''B'' \<mapsto> []],
      app_configs = [(''A'', app_A), (''B'', app_B_broken)],
      stored_app_configs = [], ready = False, cache = Map.empty\<rparr>"

section \<open>Strings and ordered dictionaries: basic facts\<close>

lemma map_of_od_set: "map_of (od_set k v ps) = (map_of ps)(k \<mapsto> v)"
  by (induction ps) (auto simp: fun_eq_iff)

lemma set_od_set: "set (od_set k v ps) \<subseteq> insert (k, v) (set ps)"
  by (induction ps) auto

lemma fst_set_od_set: "fst ` set (od_set k v ps) = insert k (fst ` set ps)"
  by (induction ps) auto

section \<open>What each step leaves unchanged\<close>

text \<open>
  The \<open>defaultdict\<close> access, one registration, the registrations of one import, the
  loading loop and the resolving loop: which fields they touch, and what they do to the
  cache.
\<close>

lemma all_models_getitem_frame:
  "all_models_getitem st l = (d, st1) \<Longrightarrow>
   app_configs st1 = app_configs st \<and> stored_app_configs st1 = stored_app_configs st
   \<and> ready st1 = ready st \<and> cache st1 = cache st"
  by (auto simp: all_models_getitem_def split: option.splits)

lemma all_models_getitem_store:
  "all_models_getitem st l = (d, st1) \<Longrightarrow>
   all_models st1 l = Some d \<and> (\<forall>l'. l' \<noteq> l \<longrightarrow> all_models st1 l' = all_models st l')
   \<and> (all_models st l = None \<longrightarrow> d = []) \<and> (\<forall>d'. all_models st l = Some d' \<longrightarrow> d' = d \<and> st1 = st)"
  by (auto simp: all_models_getitem_def split: option.splits)

lemma register_model_frame:
  "register_model lower st l m = (out, st1) \<Longrightarrow>
   app_configs st1 = app_configs st \<and> stored_app_configs st1 = stored_app_configs st
   \<and> ready st1 = ready st"
  by (auto simp: register_model_def all_models_getitem_def clear_cache_def
        split: option.splits)


lemma register_all_frame:
  "register_all lower st ms = (out, st1) \<Longrightarrow>
   app_configs st1 = app_configs st \<and> stored_app_configs st1 = stored_app_configs st
   \<and> ready st1 = ready st"
proof (induction ms arbitrary: st)
  case Nil
  then show ?case by simp
next
  case (Cons m ms)
  show ?case
  proof (cases "register_model lower st (app_label m) m")
    case (Pair o1 s1)
    note f = register_model_frame[OF Pair]
    show ?thesis
    proof (cases o1)
      case None
      with Cons.prems Pair have "register_all lower s1 ms = (out, st1)" by simp
      from Cons.IH[OF this] f show ?thesis by simp
    next
      case (Some e)
      with Cons.prems Pair have "st1 = s1" by simp
      with f show ?thesis by simp
    qed
  qed
qed


lemma load_models_frame:
  "load_models lower st cs = (out, st1) \<Longrightarrow>
   app_configs st1 = app_configs st \<and> stored_app_configs st1 = stored_app_configs st
   \<and> ready st1 = ready st"
proof (induction cs arbitrary: st)
  case Nil
  then show ?case by simp
next
  case (Cons c cs)
  obtain d s1 where g: "all_models_getitem st (label c) = (d, s1)" by force
  note f1 = all_models_getitem_frame[OF g]
  show ?case
  proof (cases "import_models c")
    case (Inl e)
    with Cons.prems g have "st1 = s1" by simp
    with f1 show ?thesis by simp
  next
    case (Inr ms)
    obtain o2 s2 where r: "register_all lower s1 ms = (o2, s2)" by force
    note f2 = register_all_frame[OF r]
    show ?thesis
    proof (cases o2)
      case None
      with Cons.prems g Inr r have "load_models lower s2 cs = (out, st1)" by simp
      from Cons.IH[OF this] f1 f2 show ?thesis by simp
    next
      case (Some e)
      with Cons.prems g Inr r have "st1 = s2" by simp
      with f1 f2 show ?thesis by simp
    qed
  qed
qed


lemma load_app_configs_frame:
  "load_app_configs create st es = (out, st1) \<Longrightarrow>
   all_models st1 = all_models st \<and> stored_app_configs st1 = stored_app_configs st
   \<and> ready st1 = ready st \<and> cache st1 = cache st"
proof (induction es arbitrary: st)
  case Nil
  then show ?case by simp
next
  case (Cons e es)
  show ?case
  proof (cases "resolve create e")
    case (Inl err)
    with Cons.prems show ?thesis by simp
  next
    case (Inr c)
    with Cons.prems have
      "load_app_configs create (st\<lparr>app_configs := od_set (label c) c (app_configs st)\<rparr>) es = (out, st1)"
      by simp
    from Cons.IH[OF this] show ?thesis by simp
  qed
qed

lemma load_app_configs_last_wins:
  "map (resolve create) es = map Inr cs \<Longrightarrow>
   \<exists>st1. load_app_configs create st es = (None, st1)
     \<and> (\<forall>l. map_of (app_configs st1) l =
            (case filter (\<lambda>d. label d = l) cs of
               [] \<Rightarrow> map_of (app_configs st) l
             | d # ds \<Rightarrow> Some (last (d # ds))))
     \<and> fst ` set (app_configs st1) = fst ` set (app_configs st) \<union> label ` set cs"
proof (induction es arbitrary: st cs)
  case Nil
  then show ?case by simp
next
  case (Cons e es)
  then obtain c cs' where cs: "cs = c # cs'" and rc: "resolve create e = Inr c"
    and rest: "map (resolve create) es = map Inr cs'"
    by (cases cs) auto
  let ?st = "st\<lparr>app_configs := od_set (label c) c (app_configs st)\<rparr>"
  from Cons.IH[OF rest, of ?st] obtain st1 where
    r: "load_app_configs create ?st es = (None, st1)"
    and m: "\<forall>l. map_of (app_configs st1) l =
            (case filter (\<lambda>d. label d = l) cs' of
               [] \<Rightarrow> map_of (app_configs ?st) l
             | d # ds \<Rightarrow> Some (last (d # ds)))"
    and k: "fst ` set (app_configs st1) = fst ` set (app_configs ?st) \<union> label ` set cs'"
    by blast
  have "load_app_configs create st (e # es) = (None, st1)"
    using rc r by simp
  moreover have "\<forall>l. map_of (app_configs st1) l =
            (case filter (\<lambda>d. label d = l) cs of
               [] \<Rightarrow> map_of (app_configs st) l
             | d # ds \<Rightarrow> Some (last (d # ds)))"
  proof
    fix l
    show "map_of (app_configs st1) l =
            (case filter (\<lambda>d. label d = l) cs of
               [] \<Rightarrow> map_of (app_configs st) l
             | d # ds \<Rightarrow> Some (last (d # ds)))"
      using m[rule_format, of l] by (auto simp: cs map_of_od_set split: list.splits)
  qed
  moreover have "fst ` set (app_configs st1) = fst ` set (app_configs st) \<union> label ` set cs"
    using k by (auto simp: cs fst_set_od_set)
  ultimately show ?case by blast
qed

lemma get_models_frame:
  "get_models st call = (res, st1) \<Longrightarrow>
   all_models st1 = all_models st \<and> app_configs st1 = app_configs st
   \<and> stored_app_configs st1 = stored_app_configs st \<and> ready st1 = ready st"
  by (auto simp: get_models_def split: option.splits sum.splits)

lemma get_registered_model_state:
  "snd (get_registered_model lower st l n) = snd (all_models_getitem st l)"
  by (simp add: get_registered_model_def split: prod.splits option.splits)

lemma all_models_getitem_models:
  "all_models_getitem st l = (d, st1) \<Longrightarrow> app_config_models st1 c = app_config_models st c"
  by (auto simp: all_models_getitem_def app_config_models_def split: option.splits if_splits)

text \<open>
  A lookup leaves the components, the stack and \<open>ready\<close> as they are, and the records
  of every component too: the sub-map that \<open>get_registered_model\<close> may create is empty.
\<close>

lemma run_lookup_frame:
  "app_configs (run_lookup lower st q) = app_configs st
   \<and> stored_app_configs (run_lookup lower st q) = stored_app_configs st
   \<and> ready (run_lookup lower st q) = ready st
   \<and> (\<forall>c. app_config_models (run_lookup lower st q) c = app_config_models st c)"
proof (cases q)
  case (GetModels call)
  obtain res s1 where g: "get_models st call = (res, s1)" by force
  from get_models_frame[OF g] g GetModels show ?thesis
    by (simp add: app_config_models_def)
next
  case (GetModel l n)
  then show ?thesis by simp
next
  case (GetRegisteredModel l n)
  obtain d s1 where g: "all_models_getitem st l = (d, s1)" by force
  from GetRegisteredModel g have r: "run_lookup lower st q = s1"
    by (simp add: get_registered_model_state)
  from all_models_getitem_frame[OF g] all_models_getitem_models[OF g] r show ?thesis by simp
qed

lemma run_lookups_frame:
  "app_configs (foldl (run_lookup lower) st qs) = app_configs st
   \<and> stored_app_configs (foldl (run_lookup lower) st qs) = stored_app_configs st
   \<and> ready (foldl (run_lookup lower) st qs) = ready st
   \<and> (\<forall>c. app_config_models (foldl (run_lookup lower) st qs) c = app_config_models st c)"
proof (induction qs arbitrary: st)
  case Nil
  show ?case by simp
next
  case (Cons q qs)
  from Cons.IH[of "run_lookup lower st q"] run_lookup_frame[of lower st q] show ?case by simp
qed

lemma setup_all_frame:
  "setup_all lower st cs = (out, st1) \<Longrightarrow>
   app_configs st1 = app_configs st \<and> stored_app_configs st1 = stored_app_configs st
   \<and> ready st1 = ready st \<and> (\<forall>c. app_config_models st1 c = app_config_models st c)"
proof (induction cs arbitrary: st)
  case Nil
  then show ?case by simp
next
  case (Cons c cs)
  let ?s = "foldl (run_lookup lower) st (setup_lookups c)"
  note f = run_lookups_frame[of lower st "setup_lookups c"]
  show ?case
  proof (cases "setup_hook c")
    case None
    with Cons.prems have "setup_all lower ?s cs = (out, st1)" by (simp add: Let_def)
    from Cons.IH[OF this] f show ?thesis by simp
  next
    case (Some e)
    with Cons.prems have "st1 = ?s" by (simp add: Let_def)
    with f show ?thesis by simp
  qed
qed


section \<open>The course of populate\<close>

text \<open>
  A \<open>populate\<close> on a registry that is not ready ends in one of four ways: at the entry
  check, in the resolving loop, in the loading loop, or in the setup hooks, which run on
  the loaded registry once its cache is cleared and it is marked ready.
\<close>

lemma populate_cases:
  assumes p: "populate lower create st es = (out, t)" and nr: "\<not> ready st"
  obtains
    (reentrant) "app_configs st \<noteq> []" "out = Some ReentrancyFault" "t = st"
  | (unresolved) e where "app_configs st = []" "load_app_configs create st es = (Some e, t)"
      "out = Some e"
  | (unloaded) s1 e where "app_configs st = []" "load_app_configs create st es = (None, s1)"
      "load_models lower s1 (map snd (app_configs s1)) = (Some e, t)" "out = Some e"
  | (loaded) s1 s2 where "app_configs st = []" "load_app_configs create st es = (None, s1)"
      "load_models lower s1 (map snd (app_configs s1)) = (None, s2)"
      "setup_all lower ((clear_cache s2)\<lparr>ready := True\<rparr>) (map snd (app_configs s2)) = (out, t)"
proof (cases "app_configs st \<noteq> []")
  case True
  with p nr have "out = Some ReentrancyFault" "t = st" by (simp_all add: populate_def)
  with True show ?thesis by (rule reentrant)
next
  case False
  then have em: "app_configs st = []" by simp
  obtain o1 s1 where l1: "load_app_configs create st es = (o1, s1)" by force
  show ?thesis
  proof (cases o1)
    case (Some e)
    with em nr l1 p have "t = s1" "out = Some e" by (simp_all add: populate_def)
    with em l1 Some show ?thesis by (simp add: unresolved)
  next
    case None
    obtain o2 s2 where l2: "load_models lower s1 (map snd (app_configs s1)) = (o2, s2)" by force
    show ?thesis
    proof (cases o2)
      case (Some e)
      with em nr l1 None l2 p have "t = s2" "out = Some e" by (simp_all add: populate_def)
      with em l1 None l2 Some show ?thesis by (simp add: unloaded)
    next
      case n2: None
      with em nr l1 None l2 p have
        "setup_all lower ((clear_cache s2)\<lparr>ready := True\<rparr>) (map snd (app_configs s2)) = (out, t)"
        by (simp add: populate_def Let_def get_app_configs_def check_ready_def clear_cache_def)
      with em l1 None l2 n2 show ?thesis by (simp add: loaded)
    qed
  qed
qed


lemma populate_app_configs:
  assumes "\<not> ready st" and "app_configs st = []"
  shows "app_configs (snd (populate lower create st es)) =
         app_configs (snd (load_app_configs create st es))"
proof -
  obtain out t where p: "populate lower create st es = (out, t)" by force
  from p assms(1) show ?thesis
  proof (cases rule: populate_cases)
    case reentrant
    with assms(2) show ?thesis by simp
  next
    case (unresolved e)
    with p show ?thesis by simp
  next
    case (unloaded s1 e)
    from load_models_frame[OF unloaded(3)] unloaded(2) p show ?thesis by simp
  next
    case (loaded s1 s2)
    from setup_all_frame[OF loaded(4)] load_models_frame[OF loaded(3)] loaded(2) p
    show ?thesis by (simp add: clear_cache_def)
  qed
qed

section \<open>The cache\<close>


















section \<open>The override stack\<close>

lemma run_overrides_append:
  "run_overrides st (cs @ ds) =
     (case run_overrides st cs of
        (Some err, st1) \<Rightarrow> (Some err, st1)
      | (None, st1) \<Rightarrow> run_overrides st1 ds)"
  by (induction st cs rule: run_overrides.induct) (auto split: prod.splits option.splits)

lemma set_available_apps_stack:
  "set_available_apps st av = (None, st1) \<Longrightarrow>
   length (stored_app_configs st1) = Suc (length (stored_app_configs st))"
  by (auto simp: set_available_apps_def clear_cache_def Let_def split: sum.splits if_splits)

lemma unset_available_apps_stack:
  "unset_available_apps st = (None, st1) \<Longrightarrow>
   Suc (length (stored_app_configs st1)) = length (stored_app_configs st)"
  by (auto simp: unset_available_apps_def clear_cache_def split: if_splits)

lemma run_overrides_stack:
  "run_overrides st cs = (None, st1) \<Longrightarrow>
   length (stored_app_configs st1) + length (filter is_pop cs) =
   length (stored_app_configs st) + length (filter (\<lambda>c. \<not> is_pop c) cs)"
proof (induction st cs rule: run_overrides.induct)
  case (1 st)
  then show ?case by simp
next
  case (2 st av cs)
  then obtain st' where a: "set_available_apps st av = (None, st')" and b: "run_overrides st' cs = (None, st1)"
    by (auto split: prod.splits option.splits)
  from "2.IH"[OF a[symmetric] _ b] set_available_apps_stack[OF a] show ?case by simp
next
  case (3 st cs)
  then obtain st' where a: "unset_available_apps st = (None, st')" and b: "run_overrides st' cs = (None, st1)"
    by (auto split: prod.splits option.splits)
  from "3.IH"[OF a[symmetric] _ b] unset_available_apps_stack[OF a] show ?case by simp
qed

section \<open>The RecordStore invariant\<close>

lemma store_keyed_init: "store_keyed lower init_apps"
  by (simp add: store_keyed_def init_apps_def)

lemma all_models_getitem_keyed:
  assumes "all_models_getitem st l = (d, st1)" and "store_keyed lower st"
  shows "store_keyed lower st1"
proof (cases "all_models st l")
  case (Some d')
  with assms(1) have "st1 = st" by (simp add: all_models_getitem_def)
  with assms(2) show ?thesis by simp
next
  case None
  with assms(1) have st1: "all_models st1 = (all_models st)(l \<mapsto> [])"
    by (auto simp: all_models_getitem_def)
  show ?thesis
    unfolding store_keyed_def
  proof (intro allI impI)
    fix l' d' k m
    assume a: "all_models st1 l' = Some d'" and b: "(k, m) \<in> set d'"
    show "app_label m = l' \<and> k = model_name lower m"
    proof (cases "l' = l")
      case True
      with a st1 have "d' = []" by simp
      with b show ?thesis by simp
    next
      case False
      with a st1 have "all_models st l' = Some d'" by simp
      with b assms(2) show ?thesis unfolding store_keyed_def by blast
    qed
  qed
qed

lemma register_model_keyed:
  assumes "register_model lower st (app_label m) m = (out, st1)" and "store_keyed lower st"
  shows "store_keyed lower st1"
proof -
  obtain d s1 where g: "all_models_getitem st (app_label m) = (d, s1)" by force
  note k1 = all_models_getitem_keyed[OF g assms(2)]
  note s = all_models_getitem_store[OF g]
  show ?thesis
  proof (cases "map_of d (model_name lower m)")
    case (Some old)
    with assms(1) g have "st1 = s1" by (simp add: register_model_def)
    with k1 show ?thesis by simp
  next
    case None
    with assms(1) g have st1: "st1 = clear_cache (s1\<lparr>all_models :=
            (all_models s1)(app_label m \<mapsto> od_set (model_name lower m) m d)\<rparr>)"
      by (simp add: register_model_def)
    show ?thesis
      unfolding store_keyed_def
    proof (intro allI impI)
      fix l d' k m'
      assume a: "all_models st1 l = Some d'" and b: "(k, m') \<in> set d'"
      show "app_label m' = l \<and> k = model_name lower m'"
      proof (cases "l = app_label m")
        case True
        with a st1 have "d' = od_set (model_name lower m) m d" by (simp add: clear_cache_def)
        with b set_od_set[of "model_name lower m" m d] have "(k, m') = (model_name lower m, m) \<or> (k, m') \<in> set d"
          by auto
        then show ?thesis
        proof
          assume "(k, m') = (model_name lower m, m)"
          with True show ?thesis by simp
        next
          assume "(k, m') \<in> set d"
          with s k1 True show ?thesis unfolding store_keyed_def by blast
        qed
      next
        case False
        with a st1 have "all_models s1 l = Some d'" by (simp add: clear_cache_def)
        with b k1 show ?thesis unfolding store_keyed_def by blast
      qed
    qed
  qed
qed

lemma register_all_keyed:
  "register_all lower st ms = (out, st1) \<Longrightarrow> store_keyed lower st \<Longrightarrow> store_keyed lower st1"
proof (induction ms arbitrary: st)
  case Nil
  then show ?case by simp
next
  case (Cons m ms)
  obtain o1 s1 where r: "register_model lower st (app_label m) m = (o1, s1)" by force
  note k1 = register_model_keyed[OF r Cons.prems(2)]
  show ?case
  proof (cases o1)
    case None
    with Cons.prems(1) r have "register_all lower s1 ms = (out, st1)" by simp
    from Cons.IH[OF this k1] show ?thesis .
  next
    case (Some e)
    with Cons.prems(1) r have "st1 = s1" by simp
    with k1 show ?thesis by simp
  qed
qed

lemma load_models_keyed:
  "load_models lower st cs = (out, st1) \<Longrightarrow> store_keyed lower st \<Longrightarrow> store_keyed lower st1"
proof (induction cs arbitrary: st)
  case Nil
  then show ?case by simp
next
  case (Cons c cs)
  obtain d s1 where g: "all_models_getitem st (label c) = (d, s1)" by force
  note k1 = all_models_getitem_keyed[OF g Cons.prems(2)]
  show ?case
  proof (cases "import_models c")
    case (Inl e)
    with Cons.prems(1) g have "st1 = s1" by simp
    with k1 show ?thesis by simp
  next
    case (Inr ms)
    obtain o2 s2 where r: "register_all lower s1 ms = (o2, s2)" by force
    note k2 = register_all_keyed[OF r k1]
    show ?thesis
    proof (cases o2)
      case None
      with Cons.prems(1) g Inr r have "load_models lower s2 cs = (out, st1)" by simp
      from Cons.IH[OF this k2] show ?thesis .
    next
      case (Some e)
      with Cons.prems(1) g Inr r have "st1 = s2" by simp
      with k2 show ?thesis by simp
    qed
  qed
qed

lemma run_lookup_keyed:
  assumes "store_keyed lower st"
  shows "store_keyed lower (run_lookup lower st q)"
proof (cases q)
  case (GetModels call)
  obtain res s1 where g: "get_models st call = (res, s1)" by force
  from get_models_frame[OF g] g GetModels assms show ?thesis by (simp add: store_keyed_def)
next
  case (GetModel l n)
  with assms show ?thesis by simp
next
  case (GetRegisteredModel l n)
  obtain d s1 where g: "all_models_getitem st l = (d, s1)" by force
  from GetRegisteredModel g have "run_lookup lower st q = s1"
    by (simp add: get_registered_model_state)
  with all_models_getitem_keyed[OF g assms] show ?thesis by simp
qed

lemma run_lookups_keyed:
  "store_keyed lower st \<Longrightarrow> store_keyed lower (foldl (run_lookup lower) st qs)"
  by (induction qs arbitrary: st) (simp_all add: run_lookup_keyed)

lemma setup_all_keyed:
  "setup_all lower st cs = (out, st1) \<Longrightarrow> store_keyed lower st \<Longrightarrow> store_keyed lower st1"
proof (induction cs arbitrary: st)
  case Nil
  then show ?case by simp
next
  case (Cons c cs)
  let ?s = "foldl (run_lookup lower) st (setup_lookups c)"
  from Cons.prems(2) have k: "store_keyed lower ?s" by (rule run_lookups_keyed)
  show ?case
  proof (cases "setup_hook c")
    case None
    with Cons.prems(1) have "setup_all lower ?s cs = (out, st1)" by (simp add: Let_def)
    from Cons.IH[OF this k] show ?thesis .
  next
    case (Some e)
    with Cons.prems(1) have "st1 = ?s" by (simp add: Let_def)
    with k show ?thesis by simp
  qed
qed

lemma populate_keyed:
  assumes p: "populate lower create st es = (out, st1)" and k: "store_keyed lower st"
  shows "store_keyed lower st1"
proof (cases "ready st")
  case True
  with p k show ?thesis by (simp add: populate_def)
next
  case False
  from p False show ?thesis
  proof (cases rule: populate_cases)
    case reentrant
    with k show ?thesis by simp
  next
    case (unresolved e)
    from load_app_configs_frame[OF unresolved(2)] k show ?thesis by (simp add: store_keyed_def)
  next
    case (unloaded s1 e)
    from load_app_configs_frame[OF unloaded(2)] k have "store_keyed lower s1"
      by (simp add: store_keyed_def)
    from load_models_keyed[OF unloaded(3) this] show ?thesis .
  next
    case (loaded s1 s2)
    from load_app_configs_frame[OF loaded(2)] k have "store_keyed lower s1"
      by (simp add: store_keyed_def)
    from load_models_keyed[OF loaded(3) this]
    have "store_keyed lower ((clear_cache s2)\<lparr>ready := True\<rparr>)"
      by (simp add: store_keyed_def clear_cache_def)
    from setup_all_keyed[OF loaded(4) this] show ?thesis .
  qed
qed

lemma set_installed_apps_keyed:
  assumes "set_installed_apps lower create st es = (out, st1)" and "store_keyed lower st"
  shows "store_keyed lower st1"
proof (cases "ready st")
  case False
  with assms show ?thesis by (simp add: set_installed_apps_def check_ready_def)
next
  case True
  let ?s = "clear_cache
               (st\<lparr>stored_app_configs := stored_app_configs st @ [app_configs st],
                   app_configs := [],
                   ready := False\<rparr>)"
  from True assms(1) have p: "populate lower create ?s es = (out, st1)"
    by (simp add: set_installed_apps_def check_ready_def)
  have "store_keyed lower ?s" using assms(2) by (simp add: store_keyed_def clear_cache_def)
  from populate_keyed[OF p this] show ?thesis .
qed

lemma unset_installed_apps_result:
  "unset_installed_apps st = (None, st1) \<Longrightarrow>
   all_models st1 = all_models st \<and> cache st1 = Map.empty \<and> ready st1"
  by (auto simp: unset_installed_apps_def clear_cache_def split: if_splits)

lemma get_registered_model_found:
  "all_models st l = Some d \<Longrightarrow> map_of d (lower s) = Some m \<Longrightarrow>
   get_registered_model lower st l s = (Inr m, st)"
  by (simp add: get_registered_model_def all_models_getitem_def)

lemma app_config_get_models_subset:
  assumes "m \<in> set (app_config_get_models st c a d s)"
  shows "\<exists>dd k. all_models st (label c) = Some dd \<and> (k, m) \<in> set dd"
proof -
  from assms have "m \<in> snd ` set (app_config_models st c)"
    by (simp add: app_config_get_models_def)
  then obtain k where k: "(k, m) \<in> set (app_config_models st c)" by force
  show ?thesis
  proof (cases "all_models st (label c)")
    case None
    with k show ?thesis by (simp add: app_config_models_def)
  next
    case (Some dd)
    with k have "(k, m) \<in> set dd" by (simp add: app_config_models_def)
    with Some show ?thesis by blast
  qed
qed

lemma get_models_body_active:
  assumes "get_models_body st key = Inr ms" and "m \<in> set ms"
  shows "\<exists>c dd k. c \<in> snd ` set (app_configs st) \<and> all_models st (label c) = Some dd \<and> (k, m) \<in> set dd"
proof -
  obtain am a d s where key: "key = (am, a, d, s)" by (cases key) auto
  have "\<exists>c. c \<in> set (map snd (app_configs st)) \<and> m \<in> set (app_config_get_models st c a d s)"
  proof (cases am)
    case None
    with assms(1) key have
      "ms = concat (map (\<lambda>c. app_config_get_models st c a d s) (map snd (app_configs st)))"
      by (simp add: get_models_body_def split: option.splits)
    with assms(2) show ?thesis by auto
  next
    case (Some mn)
    let ?l = "split_on CHR ''.'' mn ! (length (split_on CHR ''.'' mn) - 2)"
    from assms(1) key Some have r: "check_ready st = None"
      and b: "(case get_app_config st ?l of
                 Inl (NotFoundFault l n) \<Rightarrow> Inr []
               | Inl e \<Rightarrow> Inl e
               | Inr c \<Rightarrow> Inr (app_config_get_models st c a d s)) = Inr ms"
      by (simp_all add: get_models_body_def Let_def split: option.splits if_splits)
    show ?thesis
    proof (cases "get_app_config st ?l")
      case (Inl e)
      with b have "ms = []" by (cases e) simp_all
      with assms(2) show ?thesis by simp
    next
      case (Inr c)
      with b have ms: "ms = app_config_get_models st c a d s" by simp
      from Inr have "map_of (app_configs st) ?l = Some c"
        by (simp add: get_app_config_def split: option.splits)
      then have "(?l, c) \<in> set (app_configs st)" by (rule map_of_SomeD)
      then have "c \<in> set (map snd (app_configs st))" by force
      with ms assms(2) show ?thesis by blast
    qed
  qed
  then obtain c where c: "c \<in> snd ` set (app_configs st)"
    and mc: "m \<in> set (app_config_get_models st c a d s)" by auto
  from app_config_get_models_subset[OF mc] c show ?thesis by blast
qed

lemma get_models_default_ok:
  "ready st \<Longrightarrow> fst (bind_arguments call) = None \<Longrightarrow> \<exists>ms. fst (get_models st call) = Inr ms"
  by (cases "bind_arguments call")
     (simp add: get_models_def get_models_body_def check_ready_def split: option.splits)

section \<open>The RecordStore only grows\<close>















section \<open>The example values, evaluated\<close>

lemma model_name_widget: "model_name ascii_lower widget = ''widget''"
  unfolding model_name_def widget_def by code_simp

lemma model_name_widget_lowercase: "model_name ascii_lower widget_lowercase = ''widget''"
  unfolding model_name_def widget_lowercase_def by code_simp

lemma model_name_gizmo: "model_name ascii_lower gizmo = ''gizmo''"
  unfolding model_name_def gizmo_def by code_simp

lemma ascii_lower_GIZMO: "ascii_lower ''GIZMO'' = ascii_lower (object_name gizmo)"
  unfolding gizmo_def by code_simp

lemma rpartition_pkg_bar: "rpartition_tail CHR ''.'' ''pkg.bar'' = ''bar''"
  by (simp add: rpartition_tail_def)

lemma label_examples:
  "label app_A = ''A''" "label app_B = ''B''" "label app_C = ''C''"
  "label app_B_broken = ''B''" "label app_A_other = ''A''" "label app_custom_label = ''foo''"
  "label app_B_setup = ''B''"
  by (simp_all add: app_A_def app_B_def app_C_def app_B_broken_def app_A_other_def
        app_custom_label_def app_B_setup_def)

lemma name_examples:
  "name app_A = ''pkg.A''" "name app_B = ''pkg.B''" "name app_C = ''pkg.C''"
  "name app_custom_label = ''pkg.bar''"
  by (simp_all add: app_A_def app_B_def app_C_def app_custom_label_def)

lemma import_examples:
  "import_models app_A = Inr []" "import_models app_B = Inr [widget]"
  "import_models app_C = Inr [gizmo]"
  "import_models app_B_broken = Inl (CollaboratorFault ''import failed'')"
  "import_models app_A_other = Inr []" "import_models app_custom_label = Inr []"
  "import_models app_B_setup = Inr [widget]"
  by (simp_all add: app_A_def app_B_def app_C_def app_B_broken_def app_A_other_def
        app_custom_label_def app_B_setup_def)

lemma setup_examples:
  "setup_hook app_A = None" "setup_hook app_B = None" "setup_hook app_C = None"
  "setup_hook app_A_other = None" "setup_hook app_custom_label = None"
  "setup_hook app_B_setup = None"
  "setup_lookups app_A = []" "setup_lookups app_B = []" "setup_lookups app_C = []"
  "setup_lookups app_A_other = []" "setup_lookups app_custom_label = []"
  "setup_lookups app_B_setup = [GetModels no_arguments]"
  by (simp_all add: app_A_def app_B_def app_C_def app_A_other_def app_custom_label_def
        app_B_setup_def)

lemma bind_examples:
  "bind_arguments no_arguments = (None, False, False, False)"
  "bind_arguments default_by_keyword = (None, False, False, False)"
  "default_by_keyword \<noteq> no_arguments"
  by (simp_all add: bind_arguments_def passed_value_def no_arguments_def
        default_by_keyword_def)

lemma app_label_examples:
  "app_label widget = ''B''" "app_label gizmo = ''C''" "app_label widget_lowercase = ''B''"
  by (simp_all add: widget_def gizmo_def widget_lowercase_def)


lemma create_examples:
  "example_create ''pkg.A'' = Inr app_A" "example_create ''pkg.B'' = Inr app_B"
  "example_create ''pkg.C'' = Inr app_C"
  by (simp_all add: example_create_def)

lemmas example_simps =
  model_name_widget model_name_widget_lowercase model_name_gizmo label_examples name_examples
  import_examples setup_examples app_label_examples create_examples

lemmas registry_defs =
  populate_def resolve_def all_models_getitem_def register_model_def clear_cache_def
  get_app_configs_def check_ready_def Let_def

lemma populate_AB:
  "populate ascii_lower example_create init_apps [Name ''pkg.A'', Name ''pkg.B''] = (None, populated_AB)"
  by (simp add: registry_defs example_simps init_apps_def populated_AB_def)

lemma replace_AB_by_C:
  "set_installed_apps ascii_lower example_create populated_AB [Name ''pkg.C''] = (None, replaced_C)"
  by (simp add: set_installed_apps_def registry_defs example_simps populated_AB_def
        replaced_C_def)

lemma restore_AB:
  "unset_installed_apps replaced_C = (None, restored_AB)"
  by (simp add: unset_installed_apps_def clear_cache_def replaced_C_def restored_AB_def)

lemma populate_half:
  "populate ascii_lower example_create init_apps [Config app_A, Config app_B_broken] =
     (Some (CollaboratorFault ''import failed''), half_loaded)"
  by (simp add: registry_defs example_simps init_apps_def half_loaded_def)




section \<open>The claims\<close>

subsection \<open>C1: populate after a load that failed\<close>

text \<open>
  C1, as amended. When \<open>populate\<close> fails during loading (the identifiers resolved, and
  some component's load raised after the earlier ones were loaded), the error is the one
  the load raised, the registry stays not ready and \<open>app_configs\<close> keeps the descriptors
  of the failed attempt. Every later \<open>populate\<close>, with any identifier list and any
  resolver, and whatever \<open>all_models\<close> holds, stops at the entry check with
  \<open>ReentrancyFault\<close> and changes nothing.
\<close>

theorem populate_partial_failure_blocks_retry:
  assumes nr: "\<not> ready st" and em: "app_configs st = []"
    and l1: "load_app_configs create st es = (None, st1)"
    and l2: "load_models lower st1 (map snd (app_configs st1)) = (Some err, st2)"
  shows "populate lower create st es = (Some err, st2) \<and> \<not> ready st2 \<and> app_configs st2 \<noteq> []
         \<and> populate lower create' st2 es' = (Some ReentrancyFault, st2)"
proof -
  have p: "populate lower create st es = (Some err, st2)"
    using nr em l1 l2 by (simp add: populate_def)
  from load_app_configs_frame[OF l1] nr have r1: "\<not> ready st1" by simp
  from load_models_frame[OF l2] r1 have r2: "\<not> ready st2" and a2: "app_configs st2 = app_configs st1"
    by simp_all
  have "app_configs st1 \<noteq> []"
  proof
    assume "app_configs st1 = []"
    with l2 show False by simp
  qed
  with a2 have ne: "app_configs st2 \<noteq> []" by simp
  from r2 ne have "populate lower create' st2 es' = (Some ReentrancyFault, st2)"
    by (simp add: populate_def)
  with p r2 ne show ?thesis by simp
qed

text \<open>
  The theorem at \<open>A\<close> and a \<open>B\<close> whose load raises, from the empty registry.
\<close>

theorem populate_partial_failure_blocks_retry_witness:
  "\<not> ready init_apps
   \<and> app_configs init_apps = []
   \<and> fst (load_app_configs example_create init_apps [Config app_A, Config app_B_broken]) = None
   \<and> load_models ascii_lower
        (snd (load_app_configs example_create init_apps [Config app_A, Config app_B_broken]))
        [app_A, app_B_broken] = (Some (CollaboratorFault ''import failed''), half_loaded)
   \<and> populate ascii_lower example_create init_apps [Config app_A, Config app_B_broken] =
       (Some (CollaboratorFault ''import failed''), half_loaded)
   \<and> \<not> ready half_loaded
   \<and> app_configs half_loaded \<noteq> []
   \<and> populate ascii_lower example_create half_loaded [Name ''pkg.A'', Name ''pkg.B''] =
       (Some ReentrancyFault, half_loaded)"
proof -
  let ?s1 = "snd (load_app_configs example_create init_apps [Config app_A, Config app_B_broken])"
  have nr: "\<not> ready init_apps" and em: "app_configs init_apps = []"
    by (simp_all add: init_apps_def)
  have f1: "fst (load_app_configs example_create init_apps [Config app_A, Config app_B_broken])
              = None"
    by (simp add: resolve_def)
  then have l1: "load_app_configs example_create init_apps [Config app_A, Config app_B_broken] =
              (None, ?s1)"
    by (simp add: prod_eq_iff)
  have acs: "map snd (app_configs ?s1) = [app_A, app_B_broken]"
    by (simp add: resolve_def example_simps init_apps_def)
  have l2: "load_models ascii_lower ?s1 (map snd (app_configs ?s1)) =
              (Some (CollaboratorFault ''import failed''), half_loaded)"
    by (simp add: resolve_def all_models_getitem_def register_model_def clear_cache_def
          example_simps init_apps_def half_loaded_def)
  from populate_partial_failure_blocks_retry[OF nr em l1 l2,
      of example_create "[Name ''pkg.A'', Name ''pkg.B'']"] nr em f1 l2 acs
  show ?thesis by simp
qed

text \<open>
  C1 as stated fails. \<open>B\<close>'s load raises and nothing was registered: both sub-maps of
  \<open>all_models\<close> are empty, so the corrected list conflicts with nothing (the same call
  succeeds once \<open>app_configs\<close> is emptied by hand). The second \<open>populate\<close> is refused all
  the same, with \<open>ReentrancyFault\<close> and not with \<open>ConflictFault\<close>.
\<close>

theorem populate_retry_counterexample:
  "populate ascii_lower example_create init_apps [Config app_A, Config app_B_broken] =
     (Some (CollaboratorFault ''import failed''), half_loaded)
   \<and> \<not> ready half_loaded
   \<and> all_models half_loaded ''A'' = Some []
   \<and> all_models half_loaded ''B'' = Some []
   \<and> fst (populate ascii_lower example_create (half_loaded\<lparr>app_configs := []\<rparr>)
             [Name ''pkg.A'', Name ''pkg.B'']) = None
   \<and> populate ascii_lower example_create half_loaded [Name ''pkg.A'', Name ''pkg.B''] =
       (Some ReentrancyFault, half_loaded)"
  by (simp add: populate_half)
     (simp add: registry_defs example_simps half_loaded_def)

subsection \<open>C2: two identifiers with one label\<close>

text \<open>
  C2, as amended. \<open>populate\<close> rejects no duplicate label. From a registry that is not
  ready and has no components, when every identifier resolves, the first loop ends
  without a fault; after \<open>populate\<close>, whatever the loading did, the keys of \<open>app_configs\<close>
  are the labels of the resolved descriptors, and under each label stands the last
  descriptor resolved with that label. An earlier descriptor with the same label is
  overwritten.
\<close>

theorem populate_duplicate_label_overwrites:
  assumes nr: "\<not> ready st" and em: "app_configs st = []"
    and rs: "map (resolve create) es = map Inr cs"
  shows "fst (load_app_configs create st es) = None
     \<and> (\<forall>c \<in> set cs. map_of (app_configs (snd (populate lower create st es))) (label c) =
            Some (last (filter (\<lambda>d. label d = label c) cs)))
     \<and> fst ` set (app_configs (snd (populate lower create st es))) = label ` set cs"
proof -
  from load_app_configs_last_wins[OF rs, of st] obtain st1 where
    r: "load_app_configs create st es = (None, st1)"
    and m: "\<forall>l. map_of (app_configs st1) l =
            (case filter (\<lambda>d. label d = l) cs of
               [] \<Rightarrow> map_of (app_configs st) l
             | d # ds \<Rightarrow> Some (last (d # ds)))"
    and k: "fst ` set (app_configs st1) = fst ` set (app_configs st) \<union> label ` set cs"
    by blast
  from populate_app_configs[OF nr em, where lower = lower and create = create and es = es] r
  have p: "app_configs (snd (populate lower create st es)) = app_configs st1" by simp
  have "\<forall>c \<in> set cs. map_of (app_configs st1) (label c) =
            Some (last (filter (\<lambda>d. label d = label c) cs))"
  proof
    fix c assume c: "c \<in> set cs"
    then have "filter (\<lambda>d. label d = label c) cs \<noteq> []"
      by (auto simp: filter_empty_conv)
    then show "map_of (app_configs st1) (label c) =
            Some (last (filter (\<lambda>d. label d = label c) cs))"
      using m[rule_format, of "label c"] by (auto split: list.splits)
  qed
  with r k p em show ?thesis by simp
qed

text \<open>
  The theorem at \<open>A\<close>, \<open>B\<close> and a second component labelled \<open>A\<close>: the second one takes
  the place of the first, in the first one's position.
\<close>

theorem populate_duplicate_label_overwrites_witness:
  "\<not> ready init_apps
   \<and> app_configs init_apps = []
   \<and> map (resolve example_create) [Config app_A, Name ''pkg.B'', Config app_A_other] =
     map Inr [app_A, app_B, app_A_other]
   \<and> fst (load_app_configs example_create init_apps
             [Config app_A, Name ''pkg.B'', Config app_A_other]) = None
   \<and> fst (populate ascii_lower example_create init_apps
             [Config app_A, Name ''pkg.B'', Config app_A_other]) = None
   \<and> map_of (app_configs (snd (populate ascii_lower example_create init_apps
             [Config app_A, Name ''pkg.B'', Config app_A_other]))) ''A'' = Some app_A_other
   \<and> app_configs (snd (populate ascii_lower example_create init_apps
             [Config app_A, Name ''pkg.B'', Config app_A_other])) =
       [(''A'', app_A_other), (''B'', app_B)]"
proof -
  let ?es = "[Config app_A, Name ''pkg.B'', Config app_A_other]"
  have nr: "\<not> ready init_apps" and em: "app_configs init_apps = []"
    by (simp_all add: init_apps_def)
  have h: "map (resolve example_create) ?es = map Inr [app_A, app_B, app_A_other]"
    by (simp add: resolve_def example_simps)
  have i: "app_A \<in> set [app_A, app_B, app_A_other]" by simp
  have f: "filter (\<lambda>d. label d = label app_A) [app_A, app_B, app_A_other] = [app_A, app_A_other]"
    by (simp add: example_simps)
  have o: "fst (populate ascii_lower example_create init_apps ?es) = None"
    and a: "app_configs (snd (populate ascii_lower example_create init_apps ?es)) =
       [(''A'', app_A_other), (''B'', app_B)]"
    by (simp_all add: registry_defs example_simps init_apps_def)
  note T = populate_duplicate_label_overwrites[OF nr em h]
  from T have l: "fst (load_app_configs example_create init_apps ?es) = None" by blast
  from T i have "map_of (app_configs (snd (populate ascii_lower example_create init_apps ?es))) (label app_A) =
         Some (last (filter (\<lambda>d. label d = label app_A) [app_A, app_B, app_A_other]))"
    by blast
  with f have x: "map_of (app_configs (snd (populate ascii_lower example_create init_apps ?es))) ''A'' =
         Some app_A_other" by (simp add: example_simps)
  from nr em h l o x a show ?thesis by (intro conjI)
qed

text \<open>
  C2 as stated fails: \<open>populate\<close> of two different descriptors with the label \<open>A\<close>
  returns without a fault, and \<open>app_configs\<close> holds the second one only.
\<close>

theorem populate_duplicate_label_counterexample:
  "label app_A = label app_A_other
   \<and> app_A \<noteq> app_A_other
   \<and> fst (populate ascii_lower example_create init_apps [Config app_A, Config app_A_other]) = None
   \<and> app_configs (snd (populate ascii_lower example_create init_apps [Config app_A, Config app_A_other])) =
       [(''A'', app_A_other)]"
proof -
  have "app_A \<noteq> app_A_other" by (simp add: app_A_def app_A_other_def)
  then show ?thesis
    by (simp add: registry_defs example_simps init_apps_def)
qed

subsection \<open>C3: records registered during a replacement\<close>

text \<open>
  C3. Take a registry whose RecordStore is keyed as registration keys it, then
  \<open>populate\<close>, \<open>set_installed_apps\<close> and \<open>unset_installed_apps\<close>, whatever the first two
  returned. Every record \<open>m\<close> that \<open>all_models\<close> holds under \<open>lbl\<close> when the replacement ends
  is returned by \<open>get_registered_model\<close> after the pop, for every spelling of its name up
  to letter case, and the lookup changes nothing. When no restored component has the
  label \<open>lbl\<close>, no result of \<open>get_models\<close> contains \<open>m\<close>, however the call is written, and
  \<open>get_models()\<close> does return.
\<close>

theorem replacement_records_persist:
  assumes k0: "store_keyed lower st0"
    and p: "populate lower create st0 es = (out1, st1)"
    and s: "set_installed_apps lower create' st1 es' = (out2, st2)"
    and u: "unset_installed_apps st2 = (None, st3)"
    and d: "all_models st2 lbl = Some d"
    and m: "map_of d k = Some m"
  shows "(\<forall>s. lower s = lower (object_name m) \<longrightarrow> get_registered_model lower st3 lbl s = (Inr m, st3))
    \<and> (lbl \<notin> active_labels st3 \<longrightarrow>
         (\<forall>call ms. fst (get_models st3 call) = Inr ms \<longrightarrow> m \<notin> set ms)
         \<and> (\<exists>ms. fst (get_models st3 no_arguments) = Inr ms))"
proof -
  have k2: "store_keyed lower st2"
    using set_installed_apps_keyed[OF s populate_keyed[OF p k0]] .
  note r = unset_installed_apps_result[OF u]
  from r k2 have k3: "store_keyed lower st3" by (simp add: store_keyed_def)
  from r d have d3: "all_models st3 lbl = Some d" by simp
  from m have mem: "(k, m) \<in> set d" by (rule map_of_SomeD)
  with k3 d3 have lab: "app_label m = lbl" and key: "k = model_name lower m"
    unfolding store_keyed_def by blast+
  have A: "\<forall>s. lower s = lower (object_name m) \<longrightarrow> get_registered_model lower st3 lbl s = (Inr m, st3)"
  proof (intro allI impI)
    fix s assume "lower s = lower (object_name m)"
    with key m have "map_of d (lower s) = Some m" by (simp add: model_name_def)
    from get_registered_model_found[where lower = lower, OF d3 this] show "get_registered_model lower st3 lbl s = (Inr m, st3)" .
  qed
  have B: "\<forall>call ms. fst (get_models st3 call) = Inr ms \<longrightarrow> m \<notin> set ms"
    if na: "lbl \<notin> active_labels st3"
  proof (intro allI impI notI)
    fix call ms assume g: "fst (get_models st3 call) = Inr ms" and i: "m \<in> set ms"
    from g r have "get_models_body st3 (bind_arguments call) = Inr ms"
      by (auto simp: get_models_def split: sum.splits)
    from get_models_body_active[OF this i] obtain c dd k' where
      c: "c \<in> snd ` set (app_configs st3)" and dd: "all_models st3 (label c) = Some dd"
      and km: "(k', m) \<in> set dd" by blast
    from k3 dd km have "app_label m = label c" unfolding store_keyed_def by blast
    with lab c have "lbl \<in> active_labels st3" by (auto simp: active_labels_def)
    with na show False by simp
  qed
  from r have C: "\<exists>ms. fst (get_models st3 no_arguments) = Inr ms"
    by (simp add: get_models_default_ok bind_examples)
  from A B C show ?thesis by blast
qed

text \<open>
  The theorem at \<open>A\<close>, \<open>B\<close> replaced by \<open>C\<close>: \<open>Gizmo\<close> is registered during the
  replacement, is found afterwards under any letter case, and is not among the models of
  the restored components.
\<close>

theorem replacement_records_persist_witness:
  "store_keyed ascii_lower init_apps
   \<and> populate ascii_lower example_create init_apps [Name ''pkg.A'', Name ''pkg.B''] = (None, populated_AB)
   \<and> all_models populated_AB ''C'' = None
   \<and> set_installed_apps ascii_lower example_create populated_AB [Name ''pkg.C''] = (None, replaced_C)
   \<and> all_models replaced_C ''C'' = Some [(''gizmo'', gizmo)]
   \<and> map_of [(''gizmo'', gizmo)] ''gizmo'' = Some gizmo
   \<and> unset_installed_apps replaced_C = (None, restored_AB)
   \<and> ascii_lower ''GIZMO'' = ascii_lower (object_name gizmo)
   \<and> get_registered_model ascii_lower restored_AB ''C'' ''GIZMO'' = (Inr gizmo, restored_AB)
   \<and> ''C'' \<notin> active_labels restored_AB
   \<and> fst (get_models restored_AB no_arguments) = Inr [widget]
   \<and> gizmo \<notin> set [widget]"
proof -
  have d: "all_models replaced_C ''C'' = Some [(''gizmo'', gizmo)]" by (simp add: replaced_C_def)
  have m: "map_of [(''gizmo'', gizmo)] ''gizmo'' = Some gizmo" by simp
  have n: "all_models populated_AB ''C'' = None" by (simp add: populated_AB_def)
  have a: "''C'' \<notin> active_labels restored_AB"
    by (simp add: active_labels_def restored_AB_def label_examples)
  have g: "fst (get_models restored_AB no_arguments) = Inr [widget]"
    by (simp add: get_models_def get_models_body_def check_ready_def app_config_get_models_def
        app_config_models_def example_simps bind_examples restored_AB_def widget_def)
  note T = replacement_records_persist[OF store_keyed_init populate_AB replace_AB_by_C
      restore_AB d m]
  from T ascii_lower_GIZMO
  have r: "get_registered_model ascii_lower restored_AB ''C'' ''GIZMO'' = (Inr gizmo, restored_AB)" by blast
  from T a g have x: "gizmo \<notin> set [widget]" by blast
  from store_keyed_init populate_AB n replace_AB_by_C d m restore_AB ascii_lower_GIZMO r a g x
  show ?thesis by (intro conjI)
qed

subsection \<open>C4: populate on a ready registry\<close>

text \<open>
  C4. Once the registry is ready, \<open>populate\<close> with any argument returns at once and
  leaves the whole registry as it was: \<open>app_configs\<close>, \<open>all_models\<close>,
  \<open>stored_app_configs\<close>, the cache and \<open>ready\<close>.
\<close>

theorem populate_ready_noop:
  "ready st \<Longrightarrow> populate lower create st installed_apps = (None, st)"
  by (simp add: populate_def)

text \<open>
  The theorem at a ready registry and an identifier that does not resolve.
\<close>

theorem populate_ready_noop_witness:
  "ready (init_apps\<lparr>ready := True\<rparr>)
   \<and> populate ascii_lower (\<lambda>n. Inl (CollaboratorFault n)) (init_apps\<lparr>ready := True\<rparr>) [Name ''a'']
       = (None, init_apps\<lparr>ready := True\<rparr>)"
  using populate_ready_noop [where st = "init_apps\<lparr>ready := True\<rparr>" and lower = ascii_lower
      and create = "\<lambda>n. Inl (CollaboratorFault n)" and installed_apps = "[Name ''a'']"]
  by simp

subsection \<open>C5: set_available_apps and unset_available_apps\<close>

text \<open>
  C5. When \<open>set_available_apps\<close> returns, the \<open>unset_available_apps\<close> that follows it
  returns too and gives back the registry it started from, cache cleared: the same
  \<open>app_configs\<close>, labels and order. And from an empty stack, after any sequence of pushes
  and pops that all returned and that holds as many pops as pushes, one more pop raises
  \<open>UnbalancedStackFault\<close> and leaves the registry as it was.
\<close>

theorem available_apps_round_trip:
  "(set_available_apps st av = (None, st1) \<longrightarrow>
      unset_available_apps st1 = (None, clear_cache st)
      \<and> app_configs (snd (unset_available_apps st1)) = app_configs st)
   \<and> (stored_app_configs st = [] \<longrightarrow> run_overrides st cs = (None, st2) \<longrightarrow>
        length (filter is_pop cs) = length (filter (\<lambda>c. \<not> is_pop c) cs) \<longrightarrow>
        run_overrides st (cs @ [Pop]) = (Some UnbalancedStackFault, st2)
        \<and> unset_available_apps st2 = (Some UnbalancedStackFault, st2))"
proof (intro conjI impI)
  assume a: "set_available_apps st av = (None, st1)"
  then show u: "unset_available_apps st1 = (None, clear_cache st)"
    by (auto simp: set_available_apps_def unset_available_apps_def clear_cache_def Let_def
          split: sum.splits if_splits)
  then show "app_configs (snd (unset_available_apps st1)) = app_configs st"
    by (simp add: clear_cache_def)
next
  assume e: "stored_app_configs st = []" and r: "run_overrides st cs = (None, st2)"
    and c: "length (filter is_pop cs) = length (filter (\<lambda>c. \<not> is_pop c) cs)"
  from run_overrides_stack[OF r] e c have "stored_app_configs st2 = []" by simp
  then show p: "unset_available_apps st2 = (Some UnbalancedStackFault, st2)"
    by (simp add: unset_available_apps_def)
  show "run_overrides st (cs @ [Pop]) = (Some UnbalancedStackFault, st2)"
    by (simp add: run_overrides_append r p)
qed

text \<open>
  The theorem at the registry of \<open>A\<close> and \<open>B\<close>, restricted to \<open>pkg.A\<close>.
\<close>

theorem available_apps_round_trip_witness:
  "fst (set_available_apps populated_AB [''pkg.A'']) = None
   \<and> app_configs (snd (set_available_apps populated_AB [''pkg.A''])) = [(''A'', app_A)]
   \<and> unset_available_apps (snd (set_available_apps populated_AB [''pkg.A'']))
        = (None, clear_cache populated_AB)
   \<and> app_configs (clear_cache populated_AB) = [(''A'', app_A), (''B'', app_B)]
   \<and> stored_app_configs populated_AB = []
   \<and> fst (run_overrides populated_AB [PushSubset [''pkg.A''], Pop]) = None
   \<and> length (filter is_pop [PushSubset [''pkg.A''], Pop]) =
       length (filter (\<lambda>c. \<not> is_pop c) [PushSubset [''pkg.A''], Pop])
   \<and> run_overrides populated_AB ([PushSubset [''pkg.A''], Pop] @ [Pop]) =
       (Some UnbalancedStackFault, snd (run_overrides populated_AB [PushSubset [''pkg.A''], Pop]))
   \<and> app_configs (snd (run_overrides populated_AB ([PushSubset [''pkg.A''], Pop] @ [Pop]))) =
       [(''A'', app_A), (''B'', app_B)]"
proof -
  let ?t1 = "snd (set_available_apps populated_AB [''pkg.A''])"
  let ?cs = "[PushSubset [''pkg.A''], Pop]"
  let ?t2 = "snd (run_overrides populated_AB ?cs)"
  have f1: "fst (set_available_apps populated_AB [''pkg.A'']) = None"
    and a1: "app_configs ?t1 = [(''A'', app_A)]"
    by (simp_all add: set_available_apps_def get_app_configs_def check_ready_def
          clear_cache_def populated_AB_def name_examples)
  from f1 have h1: "set_available_apps populated_AB [''pkg.A''] = (None, ?t1)"
    by (simp add: prod_eq_iff)
  have e: "stored_app_configs populated_AB = []" by (simp add: populated_AB_def)
  have f2: "fst (run_overrides populated_AB ?cs) = None"
    and a2: "app_configs ?t2 = [(''A'', app_A), (''B'', app_B)]"
    by (simp_all add: set_available_apps_def unset_available_apps_def get_app_configs_def
          check_ready_def clear_cache_def populated_AB_def name_examples)
  from f2 have h2: "run_overrides populated_AB ?cs = (None, ?t2)" by (simp add: prod_eq_iff)
  have n: "length (filter is_pop ?cs) = length (filter (\<lambda>c. \<not> is_pop c) ?cs)" by simp
  note T = available_apps_round_trip[where st = populated_AB and av = "[''pkg.A'']"
      and ?st1.0 = ?t1 and cs = ?cs and ?st2.0 = ?t2]
  from T h1 have u: "unset_available_apps ?t1 = (None, clear_cache populated_AB)" by blast
  from T e h2 n have r: "run_overrides populated_AB (?cs @ [Pop]) = (Some UnbalancedStackFault, ?t2)"
    by blast
  have a0: "app_configs (clear_cache populated_AB) = [(''A'', app_A), (''B'', app_B)]"
    by (simp add: clear_cache_def populated_AB_def)
  from r a2 have a3: "app_configs (snd (run_overrides populated_AB (?cs @ [Pop]))) =
       [(''A'', app_A), (''B'', app_B)]" by simp
  from f1 a1 u a0 e f2 n r a3 show ?thesis by (intro conjI)
qed

subsection \<open>C6: conflicting registrations\<close>

text \<open>
  C6. After \<open>r1\<close> has been registered under a label, registering under the same label
  any \<open>r2\<close> whose name equals the name of \<open>r1\<close> up to letter case raises \<open>ConflictFault\<close>
  with the key, the label, \<open>r1\<close> and \<open>r2\<close>, and leaves the registry, so also the entry of
  \<open>r1\<close>, as it was. Both records are arbitrary, so the order does not matter.
\<close>

theorem register_model_conflict:
  "register_model lower st lbl r1 = (None, st1) \<Longrightarrow>
   lower (object_name r2) = lower (object_name r1) \<Longrightarrow>
   register_model lower st1 lbl r2 = (Some (ConflictFault (model_name lower r1) lbl r1 r2), st1)"
  by (auto simp: register_model_def all_models_getitem_def clear_cache_def model_name_def
        map_of_od_set split: option.splits)

text \<open>
  The theorem at \<open>Widget\<close> and \<open>widget\<close>, in both orders.
\<close>

theorem register_model_conflict_witness:
  "fst (register_model ascii_lower init_apps ''B'' widget) = None
   \<and> ascii_lower (object_name widget_lowercase) = ascii_lower (object_name widget)
   \<and> register_model ascii_lower (snd (register_model ascii_lower init_apps ''B'' widget)) ''B'' widget_lowercase =
       (Some (ConflictFault ''widget'' ''B'' widget widget_lowercase),
        snd (register_model ascii_lower init_apps ''B'' widget))
   \<and> fst (register_model ascii_lower init_apps ''B'' widget_lowercase) = None
   \<and> register_model ascii_lower (snd (register_model ascii_lower init_apps ''B'' widget_lowercase)) ''B'' widget =
       (Some (ConflictFault ''widget'' ''B'' widget_lowercase widget),
        snd (register_model ascii_lower init_apps ''B'' widget_lowercase))"
proof -
  have fa: "fst (register_model ascii_lower init_apps ''B'' widget) = None"
    by (simp add: register_model_def all_models_getitem_def init_apps_def)
  have fa': "fst (register_model ascii_lower init_apps ''B'' widget_lowercase) = None"
    by (simp add: register_model_def all_models_getitem_def init_apps_def)
  from fa have a: "register_model ascii_lower init_apps ''B'' widget =
             (None, snd (register_model ascii_lower init_apps ''B'' widget))"
    by (simp add: prod_eq_iff)
  from fa' have a': "register_model ascii_lower init_apps ''B'' widget_lowercase =
             (None, snd (register_model ascii_lower init_apps ''B'' widget_lowercase))"
    by (simp add: prod_eq_iff)
  have b: "ascii_lower (object_name widget_lowercase) = ascii_lower (object_name widget)"
    using model_name_widget model_name_widget_lowercase by (simp add: model_name_def)
  from register_model_conflict[OF a b] register_model_conflict[OF a' b[symmetric]] fa fa' b
  show ?thesis by (simp add: model_name_widget model_name_widget_lowercase)
qed

subsection \<open>C7: the cache of get_models\<close>




subsection \<open>C8: has_app\<close>

text \<open>
  What \<open>has_app\<close> computes: it looks up the last dotted part of the name as a label, and
  compares the name of the component found there. So a \<open>True\<close> is always right.
\<close>

lemma has_app_iff:
  "has_app st app_name \<longleftrightarrow>
     (\<exists>c. map_of (app_configs st) (rpartition_tail CHR ''.'' app_name) = Some c
          \<and> name c = app_name)"
  by (simp add: has_app_def split: option.splits)

lemma has_app_sound:
  assumes "has_app st app_name"
  shows "\<exists>c \<in> snd ` set (app_configs st). name c = app_name"
proof -
  from assms obtain c where
    m: "map_of (app_configs st) (rpartition_tail CHR ''.'' app_name) = Some c"
    and n: "name c = app_name"
    by (auto simp: has_app_iff)
  from m have "(rpartition_tail CHR ''.'' app_name, c) \<in> set (app_configs st)"
    by (rule map_of_SomeD)
  then have "c \<in> snd ` set (app_configs st)" by force
  with n show ?thesis by blast
qed

text \<open>
  C8 fails on the code. A component whose label is not the last part of its name is
  active after \<open>populate\<close>, and \<open>has_app\<close> with its name returns \<open>False\<close>.
\<close>

theorem has_app_misses_custom_label:
  "fst (populate ascii_lower example_create init_apps [Config app_custom_label]) = None
   \<and> app_configs (snd (populate ascii_lower example_create init_apps [Config app_custom_label])) =
       [(''foo'', app_custom_label)]
   \<and> name app_custom_label = ''pkg.bar''
   \<and> \<not> has_app (snd (populate ascii_lower example_create init_apps [Config app_custom_label])) ''pkg.bar''"
  by (simp add: registry_defs example_simps init_apps_def has_app_def rpartition_pkg_bar)

subsection \<open>C9: get_model ignores letter case\<close>



subsection \<open>C10: get_registered_model writes to all_models\<close>

text \<open>
  C10. For a label that \<open>all_models\<close> does not have, \<open>get_registered_model\<close> raises
  \<open>NotFoundFault\<close> and leaves a registry that differs from the one it was given in one
  place: \<open>all_models\<close> now maps the label to an empty sub-map.
\<close>

theorem get_registered_model_inserts:
  "all_models st lbl = None \<Longrightarrow>
   get_registered_model lower st lbl nm =
     (Inl (NotFoundFault lbl (Some nm)), st\<lparr>all_models := (all_models st)(lbl \<mapsto> [])\<rparr>)"
  by (simp add: get_registered_model_def all_models_getitem_def)

text \<open>
  The theorem at the registry of \<open>A\<close> and \<open>B\<close> and the label \<open>C\<close>.
\<close>

theorem get_registered_model_inserts_witness:
  "all_models populated_AB ''C'' = None
   \<and> get_registered_model ascii_lower populated_AB ''C'' ''Gizmo'' =
       (Inl (NotFoundFault ''C'' (Some ''Gizmo'')),
        populated_AB\<lparr>all_models := (all_models populated_AB)(''C'' \<mapsto> [])\<rparr>)
   \<and> all_models (snd (get_registered_model ascii_lower populated_AB ''C'' ''Gizmo'')) ''C'' = Some []"
proof -
  have h: "all_models populated_AB ''C'' = None" by (simp add: populated_AB_def)
  from get_registered_model_inserts[OF h, where lower = ascii_lower and nm = "''Gizmo''"] h show ?thesis by simp
qed

end
